theory Spec2Isabelle
  imports Main "HOL-Library.AList" "HOL-Library.Word"
begin

section \<open>Pipeline definitions and the port graph\<close>

text \<open>
  A pipeline definition holds its segment definitions; each segment definition has a
  name and names the ports it uses as ingress and as egress.  A segment definition is
  what the executor's warning calls a segment type.
\<close>

record segment_definition =
  seg_name :: string
  ingress_port_names :: "string list"
  egress_port_names :: "string list"

type_synonym pipeline_definition = "segment_definition list"

text \<open>
  \<^verbatim>\<open>connections.ingress_segments\<close> and \<^verbatim>\<open>connections.egress_segments\<close> of
  \<^verbatim>\<open>valid_pipeline\<close>: the sets of segments using one port on either side.
\<close>

record port_connections =
  ingress_segments :: "string set"
  egress_segments :: "string set"

type_synonym port_map_t = "(string \<times> port_connections) list"

definition no_connections :: port_connections where
  "no_connections = \<lparr>ingress_segments = {}, egress_segments = {}\<rparr>"

definition connections_of :: "port_map_t \<Rightarrow> string \<Rightarrow> port_connections" where
  "connections_of pm port = (case map_of pm port of None \<Rightarrow> no_connections | Some c \<Rightarrow> c)"

definition add_ingress :: "string \<Rightarrow> string \<Rightarrow> port_map_t \<Rightarrow> port_map_t" where
  "add_ingress seg port pm =
     AList.update port
       ((connections_of pm port)\<lparr>ingress_segments := insert seg (ingress_segments (connections_of pm port))\<rparr>)
       pm"

definition add_egress :: "string \<Rightarrow> string \<Rightarrow> port_map_t \<Rightarrow> port_map_t" where
  "add_egress seg port pm =
     AList.update port
       ((connections_of pm port)\<lparr>egress_segments := insert seg (egress_segments (connections_of pm port))\<rparr>)
       pm"

definition add_segment :: "segment_definition \<Rightarrow> port_map_t \<Rightarrow> port_map_t" where
  "add_segment s pm =
     fold (add_egress (seg_name s)) (egress_port_names s)
       (fold (add_ingress (seg_name s)) (ingress_port_names s) pm)"

text \<open>
  Modelled from the spec: the class \<^verbatim>\<open>pipeline::PortGraph\<close> (internal/pipeline/port_graph.hpp)
  is not among the source files.  Section 4.5 of the specification: the port graph maps
  each port name to the sets of segments that use it as ingress and egress respectively.
  The map is kept as an association list with one entry per port name.
\<close>

definition PortGraph :: "pipeline_definition \<Rightarrow> port_map_t" where
  "PortGraph pipeline = fold add_segment pipeline []"

text \<open>
  \<^verbatim>\<open>valid_pipeline\<close> (executor_definition.cpp, lines 41 to 75).  The loop body runs for
  every entry of the port map and only ever lowers \<^verbatim>\<open>valid\<close>; the two warnings it logs
  are not part of the result.
\<close>

definition check_port :: "string \<times> port_connections \<Rightarrow> bool \<Rightarrow> bool" where
  "check_port entry valid =
     (let connections = snd entry;
          valid1 = (if egress_segments connections = {} \<or> ingress_segments connections = {}
                    then False else valid);
          valid2 = (if card (egress_segments connections) > 1 \<or> card (ingress_segments connections) > 1
                    then False else valid1)
      in valid2)"

definition valid_pipeline :: "pipeline_definition \<Rightarrow> bool" where
  "valid_pipeline pipeline = fold check_port (PortGraph pipeline) True"

section \<open>The executor\<close>

datatype child_service = Runtime | PipelineManager nat

datatype service_call =
    service_start child_service
  | service_await_live child_service
  | register_defs "pipeline_definition list"
  | service_stop child_service
  | service_kill child_service
  | service_await_join child_service

datatype failure =
    MrcRuntimeError string
  | check_failed
  | null_dereference

text \<open>
  The members of \<^verbatim>\<open>ExecutorDefinition\<close> that the functions below read or write.
  \<^verbatim>\<open>m_runtime\<close> is a \<^verbatim>\<open>unique_ptr\<close>: the field says whether it holds a runtime.
  \<^verbatim>\<open>m_pipeline_managers\<close> lists the pipeline managers by an identifier.  \<^verbatim>\<open>calls\<close>
  records, in order, the lifecycle calls the executor has made on its children.
\<close>

record executor_definition =
  m_registered_pipeline_defs :: "pipeline_definition list"
  m_runtime :: bool
  m_pipeline_managers :: "nat list"
  calls :: "service_call list"

text \<open>
  \<^verbatim>\<open>ExecutorDefinition::register_pipeline\<close> (lines 101 to 115).  The argument is a shared
  pointer, \<open>None\<close> when null; \<^verbatim>\<open>CHECK(pipeline)\<close> then ends the process.
  \<^verbatim>\<open>PipelineDefinition::unwrap\<close> casts the pointer to the implementation class, whose
  segments the argument lists.  A throw leaves the executor as it was when the
  exception was raised.
\<close>

definition register_pipeline ::
  "pipeline_definition option \<Rightarrow> executor_definition \<Rightarrow> (failure + unit) \<times> executor_definition" where
  "register_pipeline pipeline e =
     (case pipeline of
        None \<Rightarrow> (Inl check_failed, e)
      | Some full_pipeline \<Rightarrow>
          if \<not> valid_pipeline full_pipeline
          then (Inl (MrcRuntimeError ''pipeline validation failed''), e)
          else (Inr (), e\<lparr>m_registered_pipeline_defs := m_registered_pipeline_defs e @ [full_pipeline]\<rparr>))"

text \<open>
  \<^verbatim>\<open>ExecutorDefinition::do_service_start\<close> (lines 132 to 143): construct the runtime, start
  it, wait until it is live, then hand the registered definitions to the runtime's
  pipelines manager.
\<close>

definition do_service_start :: "executor_definition \<Rightarrow> executor_definition" where
  "do_service_start e =
     e\<lparr>m_runtime := True,
       calls := calls e @ [service_start Runtime, service_await_live Runtime,
                           register_defs (m_registered_pipeline_defs e)]\<rparr>"






subsection \<open>The words of the specification about ports\<close>

definition pipeline_ports :: "pipeline_definition \<Rightarrow> string set" where
  "pipeline_ports p = (\<Union>s \<in> set p. set (ingress_port_names s) \<union> set (egress_port_names s))"

definition ingress_users :: "pipeline_definition \<Rightarrow> string \<Rightarrow> string set" where
  "ingress_users p port = seg_name ` {s \<in> set p. port \<in> set (ingress_port_names s)}"

definition egress_users :: "pipeline_definition \<Rightarrow> string \<Rightarrow> string set" where
  "egress_users p port = seg_name ` {s \<in> set p. port \<in> set (egress_port_names s)}"

definition multi_typed :: "pipeline_definition \<Rightarrow> string \<Rightarrow> bool" where
  "multi_typed p port = (card (ingress_users p port) > 1 \<or> card (egress_users p port) > 1)"

definition well_connected :: "pipeline_definition \<Rightarrow> bool" where
  "well_connected p =
     (\<forall>port \<in> pipeline_ports p.
        ingress_users p port \<noteq> {} \<and> egress_users p port \<noteq> {} \<and> \<not> multi_typed p port)"

definition port_ok :: "port_connections \<Rightarrow> bool" where
  "port_ok c =
     (\<not> (egress_segments c = {} \<or> ingress_segments c = {}) \<and>
      \<not> (card (egress_segments c) > 1 \<or> card (ingress_segments c) > 1))"

subsection \<open>Reading the order of lifecycle calls\<close>





subsection \<open>The executors the code builds\<close>




subsection \<open>Example pipelines and executors\<close>

definition linear_pipeline :: pipeline_definition where
  "linear_pipeline =
     [\<lparr>seg_name = ''seg_1'', ingress_port_names = [], egress_port_names = [''my_port'']\<rparr>,
      \<lparr>seg_name = ''seg_2'', ingress_port_names = [''my_port''], egress_port_names = []\<rparr>]"

definition egress_only_pipeline :: pipeline_definition where
  "egress_only_pipeline =
     [\<lparr>seg_name = ''seg_1'', ingress_port_names = [], egress_port_names = [''my_port'']\<rparr>]"

text \<open>
  The executor as its constructor leaves it (lines 77 to 79): no registered definition,
  no runtime, no pipeline manager, no call made yet.
\<close>

definition fresh_executor :: executor_definition where
  "fresh_executor =
     \<lparr>m_registered_pipeline_defs = [], m_runtime = False, m_pipeline_managers = [], calls = []\<rparr>"

section \<open>The control-plane client\<close>

datatype State = Disconnected | FailedToConnect | Connected | RegisteringWorkers | Operational

text \<open>
  Modelled from the spec: the generated protobuf types \<^verbatim>\<open>protos::EventType\<close> and
  \<^verbatim>\<open>protos::Event\<close> (mrc/protos/architect.pb.h) are not among the source files.  Section 6
  of the specification lists the event types and the fields of an event: event type,
  64-bit tag, a payload carrying a type URL and bytes, and an optional error message.
\<close>

datatype EventType =
    ClientRegisterWorkers
  | ClientUnaryRequestPipelineAssignment
  | ClientEventRequestStateUpdate
  | ClientSubscriptionServiceRegister
  | ServerStateUpdate
  | ServerError
  | InstanceError

record any_payload =
  type_url :: string
  payload_bytes :: "8 word list"

record event =
  ev_event :: EventType
  ev_tag :: "64 word"
  ev_message :: any_payload
  ev_error :: "string option"

text \<open>
  \<^verbatim>\<open>Promise<protos::Event>\<close>, the member \<^verbatim>\<open>m_promise\<close> of an \<^verbatim>\<open>AsyncStatus\<close>: the event it
  was set to, if any, and whether its future has been taken.  A promise hands out its
  future once; \<^verbatim>\<open>get_future()\<close> on a promise whose future was taken throws
  \<^verbatim>\<open>future_already_retrieved\<close>.
\<close>

record promise =
  promise_value :: "event option"
  future_retrieved :: bool

definition pending :: promise where
  "pending = \<lparr>promise_value = None, future_retrieved = False\<rparr>"

definition fulfilled :: "event \<Rightarrow> promise" where
  "fulfilled ev = \<lparr>promise_value = Some ev, future_retrieved = False\<rparr>"

text \<open>
  The client's members read or written below, and the \<^verbatim>\<open>AsyncStatus\<close> objects of the
  process: \<open>promises\<close> maps the address of each live status's \<^verbatim>\<open>m_promise\<close>, as the 64-bit
  integer \<^verbatim>\<open>reinterpret_cast<std::uint64_t>\<close> gives, to the state of that promise.
  \<^verbatim>\<open>m_writer\<close> is a shared pointer: \<open>None\<close> when null, else the events written to the
  stream so far, oldest first.
\<close>

record client =
  m_state :: State
  m_writer :: "event list option"
  m_state_update_count :: nat
  state_updates :: "any_payload list"
  promises :: "64 word \<rightharpoonup> promise"

text \<open>\<^verbatim>\<open>Expected<ResponseT>\<close>: a response or an \<^verbatim>\<open>Error\<close> with its message.\<close>

datatype 'r expected = has_value 'r | has_error string

text \<open>
  How a call ends: it returns an \<^verbatim>\<open>Expected\<close>, or it throws, an \<^verbatim>\<open>Error\<close> with its
  message or the promise's \<^verbatim>\<open>future_already_retrieved\<close>.
\<close>

datatype thrown = Error string | future_already_retrieved

datatype 'r reply = returns "'r expected" | throws thrown

text \<open>\<^verbatim>\<open>AsyncStatus() = default\<close>: a status constructed at an address, its promise not set.\<close>

definition new_status :: "64 word \<Rightarrow> client \<Rightarrow> client" where
  "new_status status c = c\<lparr>promises := (promises c)(status \<mapsto> pending)\<rparr>"

definition delete_status :: "64 word \<Rightarrow> client \<Rightarrow> client" where
  "delete_status status c = c\<lparr>promises := (promises c)(status := None)\<rparr>"

text \<open>
  \<^verbatim>\<open>Client::async_unary\<close> (client.hpp, lines 286 to 294).  \<open>PackFrom\<close> is protobuf's
  \<^verbatim>\<open>Any::PackFrom\<close> on the request type, \<open>None\<close> when it returns false; \<open>status\<close> is the
  address of \<^verbatim>\<open>status.m_promise\<close>.  The source discards the status that
  \<^verbatim>\<open>await_write\<close> returns; the writer is taken to accept the event.  The function reads
  neither \<^verbatim>\<open>m_state\<close> nor any queue.
\<close>

definition async_unary ::
  "('req \<Rightarrow> any_payload option) \<Rightarrow> EventType \<Rightarrow> 'req \<Rightarrow> 64 word \<Rightarrow> client \<Rightarrow> failure + client" where
  "async_unary PackFrom event_type request status c =
     (case PackFrom request of
        None \<Rightarrow> Inl check_failed
      | Some packed \<Rightarrow>
          (case m_writer c of
             None \<Rightarrow> Inl null_dereference
           | Some written \<Rightarrow>
               Inr (c\<lparr>m_writer := Some (written @
                      [\<lparr>ev_event = event_type, ev_tag = status,
                        ev_message = packed, ev_error = None\<rparr>])\<rparr>)))"

text \<open>
  Modelled from the spec: \<^verbatim>\<open>Client::do_handle_event\<close> is declared in client.hpp and
  defined in client.cpp, which is not among the source files.  Section 4.8 of the
  specification: an event carrying a nonzero tag that matches a pending unary promise
  fulfils it and removes it from the pending ones; any other event is classified by its
  type: a state update is published and counted, an instance error is routed to the
  instance's handler (opaque here), a client error moves the state to
  \<^verbatim>\<open>FailedToConnect\<close>.
\<close>

definition classify_event :: "event \<Rightarrow> client \<Rightarrow> client" where
  "classify_event ev c =
     (case ev_event ev of
        ServerStateUpdate \<Rightarrow>
          c\<lparr>m_state_update_count := m_state_update_count c + 1,
            state_updates := state_updates c @ [ev_message ev]\<rparr>
      | ServerError \<Rightarrow> c\<lparr>m_state := FailedToConnect\<rparr>
      | other \<Rightarrow> c)"

definition do_handle_event :: "event \<Rightarrow> client \<Rightarrow> client" where
  "do_handle_event ev c =
     (case promises c (ev_tag ev) of
        None \<Rightarrow> classify_event ev c
      | Some p \<Rightarrow>
          if ev_tag ev \<noteq> 0 \<and> promise_value p = None
          then c\<lparr>promises := (promises c)(ev_tag ev \<mapsto> p\<lparr>promise_value := Some ev\<rparr>)\<rparr>
          else classify_event ev c)"

text \<open>
  The body of \<^verbatim>\<open>AsyncStatus::await_response\<close> after the future has delivered the event
  (lines 259 to 270).  \<open>UnpackTo\<close> is protobuf's \<^verbatim>\<open>Any::UnpackTo\<close> on the response type,
  \<open>None\<close> when it returns false.
\<close>

definition reply_of :: "(any_payload \<Rightarrow> 'r option) \<Rightarrow> event \<Rightarrow> 'r reply" where
  "reply_of UnpackTo ev =
     (case ev_error ev of
        Some msg \<Rightarrow> returns (has_error msg)
      | None \<Rightarrow>
          (case UnpackTo (ev_message ev) of
             None \<Rightarrow>
               throws (Error ''fatal error: unable to unpack message; server sent the wrong message type'')
           | Some response \<Rightarrow> returns (has_value response)))"

text \<open>
  \<^verbatim>\<open>get()\<close> on the future of the promise at \<open>status\<close>: it blocks until the promise is
  set; while the caller is blocked the event handler takes the incoming events in
  stream order.  \<open>incoming\<close> is what the stream still delivers.  The result is \<open>None\<close>
  when the stream ends with the promise not set: the call never returns.  Otherwise it
  is the reply, the events not yet consumed and the client.
\<close>

fun future_get ::
  "(any_payload \<Rightarrow> 'r option) \<Rightarrow> 64 word \<Rightarrow> event list \<Rightarrow> client \<Rightarrow> ('r reply \<times> event list \<times> client) option" where
  "future_get UnpackTo status [] c =
     (case promises c status of
        None \<Rightarrow> None
      | Some p \<Rightarrow>
          (case promise_value p of
             None \<Rightarrow> None
           | Some ev \<Rightarrow> Some (reply_of UnpackTo ev, [], c)))"
| "future_get UnpackTo status (e # es) c =
     (case promises c status of
        None \<Rightarrow> None
      | Some p \<Rightarrow>
          (case promise_value p of
             None \<Rightarrow> future_get UnpackTo status es (do_handle_event e c)
           | Some ev \<Rightarrow> Some (reply_of UnpackTo ev, e # es, c)))"

text \<open>
  \<^verbatim>\<open>AsyncStatus::await_response\<close> (lines 254 to 271).  \<^verbatim>\<open>m_promise.get_future()\<close> takes the
  promise's future, or throws when it was taken before; \<^verbatim>\<open>get()\<close> then waits for the
  event, and the rest of the body makes the reply from it.
\<close>

definition await_response ::
  "(any_payload \<Rightarrow> 'r option) \<Rightarrow> 64 word \<Rightarrow> event list \<Rightarrow> client \<Rightarrow> ('r reply \<times> event list \<times> client) option" where
  "await_response UnpackTo status incoming c =
     (case promises c status of
        None \<Rightarrow> None
      | Some p \<Rightarrow>
          if future_retrieved p then Some (throws future_already_retrieved, incoming, c)
          else future_get UnpackTo status incoming
                 (c\<lparr>promises := (promises c)(status \<mapsto> p\<lparr>future_retrieved := True\<rparr>)\<rparr>))"

text \<open>
  \<^verbatim>\<open>Client::await_unary\<close> (lines 278 to 284): a local \<^verbatim>\<open>AsyncStatus\<close>, whose promise lives
  at the address \<open>status\<close>, the call of \<^verbatim>\<open>async_unary\<close> on it, and the return of its
  \<^verbatim>\<open>await_response()\<close>; the local is destroyed when the function returns.
\<close>

definition await_unary ::
  "('req \<Rightarrow> any_payload option) \<Rightarrow> (any_payload \<Rightarrow> 'r option) \<Rightarrow> EventType \<Rightarrow> 'req \<Rightarrow> 64 word \<Rightarrow>
   event list \<Rightarrow> client \<Rightarrow> failure + ('r reply \<times> event list \<times> client) option" where
  "await_unary PackFrom UnpackTo event_type request status incoming c =
     (case async_unary PackFrom event_type request status (new_status status c) of
        Inl f \<Rightarrow> Inl f
      | Inr c1 \<Rightarrow>
          (case await_response UnpackTo status incoming c1 of
             None \<Rightarrow> Inr None
           | Some (r, rest, c2) \<Rightarrow> Inr (Some (r, rest, delete_status status c2))))"

text \<open>
  The specification's description of \<^verbatim>\<open>await_unary\<close>, to compare with the code: perform
  \<^verbatim>\<open>async_unary\<close> on a fresh status, then take what that status's \<^verbatim>\<open>await_response()\<close>
  returns.
\<close>

definition async_then_await ::
  "('req \<Rightarrow> any_payload option) \<Rightarrow> (any_payload \<Rightarrow> 'r option) \<Rightarrow> EventType \<Rightarrow> 'req \<Rightarrow> 64 word \<Rightarrow>
   event list \<Rightarrow> client \<Rightarrow> failure + 'r reply option" where
  "async_then_await PackFrom UnpackTo event_type request status incoming c =
     map_sum id (\<lambda>c1. map_option fst (await_response UnpackTo status incoming c1))
       (async_unary PackFrom event_type request status (new_status status c))"

subsection \<open>Example clients and events\<close>

definition unpack_as :: "string \<Rightarrow> any_payload \<Rightarrow> 8 word list option" where
  "unpack_as url m = (if type_url m = url then Some (payload_bytes m) else None)"

definition response_event :: "64 word \<Rightarrow> 8 word list \<Rightarrow> event" where
  "response_event t body =
     \<lparr>ev_event = ClientUnaryRequestPipelineAssignment, ev_tag = t,
      ev_message = \<lparr>type_url = ''Response'', payload_bytes = body\<rparr>, ev_error = None\<rparr>"

definition request_payload :: any_payload where
  "request_payload = \<lparr>type_url = ''Request'', payload_bytes = [7]\<rparr>"

definition connected_client :: client where
  "connected_client =
     \<lparr>m_state = Connected, m_writer = Some [], m_state_update_count = 0, state_updates = [],
      promises = Map.empty\<rparr>"

text \<open>Three in-flight requests A, B and C, their statuses at three addresses.\<close>

definition three_pending :: client where
  "three_pending =
     new_status 0x3000 (new_status 0x2000 (new_status 0x1000
       (connected_client\<lparr>m_state := Operational\<rparr>)))"

section \<open>The subscriber proxy\<close>

text \<open>
  \<^verbatim>\<open>SubscriberProxy::on_next\<close> (subscriber.cpp, lines 45 to 52).  The type
  \<^verbatim>\<open>PyObjectSubscriber\<close> (pysrf/types.hpp) is not among the source files: its two member
  functions are parameters, \<open>is_subscribed\<close> reading the subscriber and \<open>on_next\<close> giving
  the subscriber after it took a value.  The result lists the values passed to the
  subscriber's \<^verbatim>\<open>on_next\<close> by this call, and gives the subscriber afterwards.
\<close>

definition SubscriberProxy_on_next ::
  "('s \<Rightarrow> bool) \<Rightarrow> ('v \<Rightarrow> 's \<Rightarrow> 's) \<Rightarrow> 's \<Rightarrow> 'v \<Rightarrow> 'v list \<times> 's" where
  "SubscriberProxy_on_next is_subscribed on_next self v =
     (if is_subscribed self then ([v], on_next v self) else ([], self))"

text \<open>\<^verbatim>\<open>SubscriberProxy::is_subscribed\<close> (lines 69 to 73).\<close>

definition SubscriberProxy_is_subscribed :: "('s \<Rightarrow> bool) \<Rightarrow> 's \<Rightarrow> bool" where
  "SubscriberProxy_is_subscribed is_subscribed self = is_subscribed self"

text \<open>A subscriber for examples: a subscription flag and the values it has observed.\<close>

record 'v observer =
  subscribed :: bool
  observed :: "'v list"

definition observe :: "'v \<Rightarrow> 'v observer \<Rightarrow> 'v observer" where
  "observe v s = s\<lparr>observed := observed s @ [v]\<rparr>"

section \<open>Edges between nodes\<close>

text \<open>
  Modelled from the spec: \<^verbatim>\<open>mrc::make_edge\<close> and the node base classes with their
  destructors (mrc/edge/edge_builder.hpp, mrc/node/source_properties.hpp,
  mrc/node/sink_properties.hpp and the headers they include) are not among the source
  files; test_edges.cpp calls them.  The model covers the edges the two tests
  \<^verbatim>\<open>NodeDestroyedBeforeEdge\<close> and \<^verbatim>\<open>SourceToSinkMultiFail\<close> build, a writable acceptor as
  producer and a writable provider as consumer:

  \<^item> section 4.2, rule 2: the value types must match or have a registered adapter, else
    \<^verbatim>\<open>type_mismatch\<close>;
  \<^item> section 4.2, rule 4 (invariant E1): a second edge on an acceptor or provider not
    declared as multi-fan-out fails with \<^verbatim>\<open>already_connected\<close>;
  \<^item> invariant E2: destroying a node that an edge still connects is fatal.  The two
    tests fix which end that is.  In \<^verbatim>\<open>NodeDestroyedBeforeEdge\<close> the sink is reset while
    the source lives, and the process dies.  In \<^verbatim>\<open>SourceToSinkMultiFail\<close> the source is
    reset first, with its edge to the first sink never released, then both sinks, and
    the test passes.  So the producer holds the edge and its destruction releases it;
    the consumer provides the edge and must outlive every holder.
\<close>

datatype value_type = t_int | t_float | t_double

record edge_node =
  node_value_type :: value_type
  multi_fan_out :: bool

text \<open>
  The live nodes by identifier, the registered adapters, and the connections made: a
  pair \<open>(producer, consumer)\<close> for every edge that the producer holds and the consumer
  provides.
\<close>

record edge_graph =
  live_nodes :: "(nat \<times> edge_node) list"
  adapters :: "(value_type \<times> value_type) list"
  connections :: "(nat \<times> nat) list"

datatype edge_failure = type_mismatch | already_connected | use_after_destruction | no_such_node

definition compatible :: "edge_graph \<Rightarrow> value_type \<Rightarrow> value_type \<Rightarrow> bool" where
  "compatible g a b = (a = b \<or> (a, b) \<in> set (adapters g))"

definition holds_edge :: "nat \<Rightarrow> edge_graph \<Rightarrow> bool" where
  "holds_edge n g = list_ex (\<lambda>e. fst e = n) (connections g)"

definition provides_held_edge :: "nat \<Rightarrow> edge_graph \<Rightarrow> bool" where
  "provides_held_edge n g = list_ex (\<lambda>e. snd e = n) (connections g)"

definition connected_to_edge :: "nat \<Rightarrow> edge_graph \<Rightarrow> bool" where
  "connected_to_edge n g = (holds_edge n g \<or> provides_held_edge n g)"

definition make_edge :: "nat \<Rightarrow> nat \<Rightarrow> edge_graph \<Rightarrow> edge_failure + edge_graph" where
  "make_edge producer consumer g =
     (case map_of (live_nodes g) producer of
        None \<Rightarrow> Inl no_such_node
      | Some p \<Rightarrow>
          (case map_of (live_nodes g) consumer of
             None \<Rightarrow> Inl no_such_node
           | Some c \<Rightarrow>
               if \<not> compatible g (node_value_type p) (node_value_type c) then Inl type_mismatch
               else if (\<not> multi_fan_out p \<and> holds_edge producer g) \<or>
                       (\<not> multi_fan_out c \<and> provides_held_edge consumer g)
               then Inl already_connected
               else Inr (g\<lparr>connections := connections g @ [(producer, consumer)]\<rparr>)))"

definition destroy_node :: "nat \<Rightarrow> edge_graph \<Rightarrow> edge_failure + edge_graph" where
  "destroy_node n g =
     (case map_of (live_nodes g) n of
        None \<Rightarrow> Inl no_such_node
      | Some node \<Rightarrow>
          if provides_held_edge n g then Inl use_after_destruction
          else Inr (g\<lparr>live_nodes := AList.delete n (live_nodes g),
                     connections := filter (\<lambda>e. fst e \<noteq> n) (connections g)\<rparr>))"

text \<open>
  A step naming a node that is not alive has no counterpart in the tests; it yields
  \<open>no_such_node\<close>.  A test body is a list of steps.  Each step yields \<open>None\<close> when it succeeds and its
  failure otherwise.  A throw of \<^verbatim>\<open>make_edge\<close> leaves the graph as it was and the test
  goes on; a fatal failure ends the process, so no later step runs.
\<close>

datatype edge_op = MakeEdge nat nat | Reset nat

fun apply_op :: "edge_op \<Rightarrow> edge_graph \<Rightarrow> edge_failure + edge_graph" where
  "apply_op (MakeEdge producer consumer) g = make_edge producer consumer g"
| "apply_op (Reset n) g = destroy_node n g"

fun run_ops :: "edge_op list \<Rightarrow> edge_graph \<Rightarrow> edge_failure option list" where
  "run_ops [] g = []"
| "run_ops (op # ops) g =
     (case apply_op op g of
        Inr g' \<Rightarrow> None # run_ops ops g'
      | Inl f \<Rightarrow> if f = use_after_destruction then [Some f] else Some f # run_ops ops g)"

subsection \<open>The nodes of the two tests\<close>

definition int_node :: edge_node where
  "int_node = \<lparr>node_value_type = t_int, multi_fan_out = False\<rparr>"

text \<open>\<^verbatim>\<open>NodeDestroyedBeforeEdge\<close>: node 0 is the source, node 1 the sink.\<close>

definition source_and_sink :: edge_graph where
  "source_and_sink =
     \<lparr>live_nodes = [(0, int_node), (1, int_node)], adapters = [(t_int, t_float)], connections = []\<rparr>"

text \<open>\<^verbatim>\<open>SourceToSinkMultiFail\<close>: node 0 is the source, nodes 1 and 2 the sinks.\<close>

definition source_and_two_sinks :: edge_graph where
  "source_and_two_sinks =
     \<lparr>live_nodes = [(0, int_node), (1, int_node), (2, int_node)], adapters = [(t_int, t_float)],
      connections = []\<rparr>"

section \<open>Properties of validation and registration\<close>

lemma distinct_add_ingress:
  "distinct (map fst pm) \<Longrightarrow> distinct (map fst (add_ingress seg port pm))"
  by (simp add: add_ingress_def distinct_update)

lemma distinct_add_egress:
  "distinct (map fst pm) \<Longrightarrow> distinct (map fst (add_egress seg port pm))"
  by (simp add: add_egress_def distinct_update)

lemma connections_add_ingress:
  "connections_of (add_ingress seg port pm) q =
     (if q = port
      then (connections_of pm port)\<lparr>ingress_segments := insert seg (ingress_segments (connections_of pm port))\<rparr>
      else connections_of pm q)"
  by (simp add: connections_of_def add_ingress_def update_conv')

lemma connections_add_egress:
  "connections_of (add_egress seg port pm) q =
     (if q = port
      then (connections_of pm port)\<lparr>egress_segments := insert seg (egress_segments (connections_of pm port))\<rparr>
      else connections_of pm q)"
  by (simp add: connections_of_def add_egress_def update_conv')

lemma dom_add_ingress: "dom (map_of (add_ingress seg port pm)) = insert port (dom (map_of pm))"
  by (simp add: add_ingress_def update_conv')

lemma dom_add_egress: "dom (map_of (add_egress seg port pm)) = insert port (dom (map_of pm))"
  by (simp add: add_egress_def update_conv')

lemma fold_add_ingress:
  "distinct (map fst pm) \<Longrightarrow>
   distinct (map fst (fold (add_ingress seg) ports pm)) \<and>
   dom (map_of (fold (add_ingress seg) ports pm)) = dom (map_of pm) \<union> set ports \<and>
   ingress_segments (connections_of (fold (add_ingress seg) ports pm) q) =
     ingress_segments (connections_of pm q) \<union> (if q \<in> set ports then {seg} else {}) \<and>
   egress_segments (connections_of (fold (add_ingress seg) ports pm) q) =
     egress_segments (connections_of pm q)"
proof (induction ports arbitrary: pm)
  case Nil
  then show ?case by simp
next
  case (Cons port ports)
  have d: "distinct (map fst (add_ingress seg port pm))"
    using Cons.prems by (rule distinct_add_ingress)
  show ?case
    using Cons.IH [OF d]
    by (auto simp: connections_add_ingress dom_add_ingress)
qed

lemma fold_add_egress:
  "distinct (map fst pm) \<Longrightarrow>
   distinct (map fst (fold (add_egress seg) ports pm)) \<and>
   dom (map_of (fold (add_egress seg) ports pm)) = dom (map_of pm) \<union> set ports \<and>
   egress_segments (connections_of (fold (add_egress seg) ports pm) q) =
     egress_segments (connections_of pm q) \<union> (if q \<in> set ports then {seg} else {}) \<and>
   ingress_segments (connections_of (fold (add_egress seg) ports pm) q) =
     ingress_segments (connections_of pm q)"
proof (induction ports arbitrary: pm)
  case Nil
  then show ?case by simp
next
  case (Cons port ports)
  have d: "distinct (map fst (add_egress seg port pm))"
    using Cons.prems by (rule distinct_add_egress)
  show ?case
    using Cons.IH [OF d]
    by (auto simp: connections_add_egress dom_add_egress)
qed

lemma add_segment_graph:
  assumes "distinct (map fst pm)"
  shows "distinct (map fst (add_segment s pm))"
    and "dom (map_of (add_segment s pm)) =
           dom (map_of pm) \<union> set (ingress_port_names s) \<union> set (egress_port_names s)"
    and "ingress_segments (connections_of (add_segment s pm) q) =
           ingress_segments (connections_of pm q) \<union>
           (if q \<in> set (ingress_port_names s) then {seg_name s} else {})"
    and "egress_segments (connections_of (add_segment s pm) q) =
           egress_segments (connections_of pm q) \<union>
           (if q \<in> set (egress_port_names s) then {seg_name s} else {})"
proof -
  let ?mid = "fold (add_ingress (seg_name s)) (ingress_port_names s) pm"
  note i = fold_add_ingress [OF assms, of "seg_name s" "ingress_port_names s" q]
  have dm: "distinct (map fst ?mid)" using i by simp
  note e = fold_add_egress [OF dm, of "seg_name s" "egress_port_names s" q]
  show "distinct (map fst (add_segment s pm))"
    using e by (simp add: add_segment_def)
  show "dom (map_of (add_segment s pm)) =
           dom (map_of pm) \<union> set (ingress_port_names s) \<union> set (egress_port_names s)"
    using i e by (simp add: add_segment_def)
  show "ingress_segments (connections_of (add_segment s pm) q) =
           ingress_segments (connections_of pm q) \<union>
           (if q \<in> set (ingress_port_names s) then {seg_name s} else {})"
    using i e by (simp add: add_segment_def)
  show "egress_segments (connections_of (add_segment s pm) q) =
           egress_segments (connections_of pm q) \<union>
           (if q \<in> set (egress_port_names s) then {seg_name s} else {})"
    using i e by (simp add: add_segment_def)
qed

lemma fold_add_segment:
  "distinct (map fst pm) \<Longrightarrow>
   distinct (map fst (fold add_segment p pm)) \<and>
   dom (map_of (fold add_segment p pm)) = dom (map_of pm) \<union> pipeline_ports p \<and>
   ingress_segments (connections_of (fold add_segment p pm) q) =
     ingress_segments (connections_of pm q) \<union> ingress_users p q \<and>
   egress_segments (connections_of (fold add_segment p pm) q) =
     egress_segments (connections_of pm q) \<union> egress_users p q"
proof (induction p arbitrary: pm)
  case Nil
  then show ?case
    by (simp add: pipeline_ports_def ingress_users_def egress_users_def)
next
  case (Cons s p)
  note g = add_segment_graph [OF Cons.prems, of s]
  have iu: "ingress_users (s # p) q =
      (if q \<in> set (ingress_port_names s) then {seg_name s} else {}) \<union> ingress_users p q"
    by (auto simp: ingress_users_def)
  have eu: "egress_users (s # p) q =
      (if q \<in> set (egress_port_names s) then {seg_name s} else {}) \<union> egress_users p q"
    by (auto simp: egress_users_def)
  have pp: "pipeline_ports (s # p) =
      set (ingress_port_names s) \<union> set (egress_port_names s) \<union> pipeline_ports p"
    by (simp add: pipeline_ports_def)
  show ?case
    using Cons.IH [OF g(1)] g(2) g(3) [of q] g(4) [of q]
    by (simp only: fold_simps iu eu pp Un_assoc)
qed

lemma PortGraph_distinct: "distinct (map fst (PortGraph p))"
  using fold_add_segment [of "[]" p] by (simp add: PortGraph_def)

lemma PortGraph_dom: "dom (map_of (PortGraph p)) = pipeline_ports p"
  using fold_add_segment [of "[]" p] by (simp add: PortGraph_def)

lemma PortGraph_ingress: "ingress_segments (connections_of (PortGraph p) q) = ingress_users p q"
  using fold_add_segment [of "[]" p q]
  by (simp add: PortGraph_def connections_of_def no_connections_def)

lemma PortGraph_egress: "egress_segments (connections_of (PortGraph p) q) = egress_users p q"
  using fold_add_segment [of "[]" p q]
  by (simp add: PortGraph_def connections_of_def no_connections_def)

lemma fold_check_port: "fold check_port pm v = (v \<and> (\<forall>entry \<in> set pm. port_ok (snd entry)))"
  by (induction pm arbitrary: v) (auto simp: check_port_def port_ok_def Let_def)

lemma entries_by_port:
  assumes "distinct (map fst pm)"
  shows "(\<forall>entry \<in> set pm. P (snd entry)) = (\<forall>q \<in> dom (map_of pm). P (connections_of pm q))"
proof
  assume l: "\<forall>entry \<in> set pm. P (snd entry)"
  show "\<forall>q \<in> dom (map_of pm). P (connections_of pm q)"
  proof
    fix q assume "q \<in> dom (map_of pm)"
    then obtain c where c: "map_of pm q = Some c" by auto
    then have "(q, c) \<in> set pm" by (rule map_of_SomeD)
    with l have "P c" by force
    with c show "P (connections_of pm q)" by (simp add: connections_of_def)
  qed
next
  assume r: "\<forall>q \<in> dom (map_of pm). P (connections_of pm q)"
  show "\<forall>entry \<in> set pm. P (snd entry)"
  proof
    fix entry assume m: "entry \<in> set pm"
    then have "(fst entry, snd entry) \<in> set pm" by simp
    with assms have s: "map_of pm (fst entry) = Some (snd entry)" by (simp only: map_of_is_SomeI)
    then have "fst entry \<in> dom (map_of pm)" by auto
    with r have "P (connections_of pm (fst entry))" by blast
    with s show "P (snd entry)" by (simp add: connections_of_def)
  qed
qed

lemma valid_pipeline_iff: "valid_pipeline p = well_connected p"
proof -
  have "valid_pipeline p = (\<forall>q \<in> dom (map_of (PortGraph p)). port_ok (connections_of (PortGraph p) q))"
    by (simp add: valid_pipeline_def fold_check_port entries_by_port [OF PortGraph_distinct])
  also have "\<dots> = well_connected p"
    by (auto simp: PortGraph_dom port_ok_def PortGraph_ingress PortGraph_egress
        well_connected_def multi_typed_def)
  finally show ?thesis .
qed

lemma valid_linear_pipeline: "valid_pipeline linear_pipeline"
  by (simp add: valid_pipeline_def PortGraph_def linear_pipeline_def add_segment_def
      add_ingress_def add_egress_def connections_of_def no_connections_def check_port_def)

lemma invalid_egress_only_pipeline: "\<not> valid_pipeline egress_only_pipeline"
  by (simp add: valid_pipeline_def PortGraph_def egress_only_pipeline_def add_segment_def
      add_ingress_def add_egress_def connections_of_def no_connections_def check_port_def)

text \<open>
  C1.  Registering a pipeline succeeds exactly when every port of the pipeline has at
  least one ingress segment and at least one egress segment and no port is used by
  more than one segment type on either side; otherwise the call raises the validation
  error.
\<close>

theorem register_pipeline_succeeds_iff:
  "(fst (register_pipeline (Some p) e) = Inr ()) = well_connected p \<and>
   (\<not> well_connected p \<longrightarrow>
      fst (register_pipeline (Some p) e) = Inl (MrcRuntimeError ''pipeline validation failed''))"
  by (simp add: register_pipeline_def valid_pipeline_iff)

theorem register_pipeline_succeeds_iff_witness:
  "fst (register_pipeline (Some linear_pipeline) fresh_executor) = Inr () \<and>
   well_connected linear_pipeline \<and>
   \<not> well_connected egress_only_pipeline \<and>
   fst (register_pipeline (Some egress_only_pipeline) fresh_executor) =
     Inl (MrcRuntimeError ''pipeline validation failed'')"
proof -
  have ok: "fst (register_pipeline (Some linear_pipeline) fresh_executor) = Inr ()"
    by (simp add: register_pipeline_def valid_linear_pipeline)
  have rejected: "fst (register_pipeline (Some egress_only_pipeline) fresh_executor) \<noteq> Inr ()"
    by (simp add: register_pipeline_def invalid_egress_only_pipeline)
  note good = register_pipeline_succeeds_iff [of linear_pipeline fresh_executor]
  note bad = register_pipeline_succeeds_iff [of egress_only_pipeline fresh_executor]
  from ok good have w: "well_connected linear_pipeline" by simp
  from rejected bad have n: "\<not> well_connected egress_only_pipeline" by simp
  from n bad have "fst (register_pipeline (Some egress_only_pipeline) fresh_executor) =
     Inl (MrcRuntimeError ''pipeline validation failed'')" by blast
  with ok w n show ?thesis by simp
qed

text \<open>
  C6, as the code has it.  The port map of a pipeline without segments is empty, the
  loop of \<^verbatim>\<open>valid_pipeline\<close> never runs, and \<^verbatim>\<open>register_pipeline\<close> stores the empty
  pipeline: it is accepted, not rejected.
\<close>

theorem register_empty_pipeline_accepted:
  "valid_pipeline [] \<and>
   register_pipeline (Some []) e =
     (Inr (), e\<lparr>m_registered_pipeline_defs := m_registered_pipeline_defs e @ [[]]\<rparr>)"
  by (simp add: register_pipeline_def valid_pipeline_def PortGraph_def)

text \<open>C6 as stated fails: on a fresh executor the empty pipeline is stored, no error is raised.\<close>

theorem register_empty_pipeline_counterexample:
  "register_pipeline (Some []) fresh_executor =
     (Inr (), fresh_executor\<lparr>m_registered_pipeline_defs := [[]]\<rparr>)"
  by (simp add: register_pipeline_def valid_pipeline_def PortGraph_def fresh_executor_def)










text \<open>
  C8.  For a pipeline that fails validation, \<^verbatim>\<open>register_pipeline\<close> raises the validation
  error before it returns and leaves the executor, its list of registered definitions
  included, as it was; a later start hands the runtime the same definitions as before.
\<close>

theorem register_pipeline_invalid_keeps_executor:
  "\<not> valid_pipeline p \<Longrightarrow>
   register_pipeline (Some p) e = (Inl (MrcRuntimeError ''pipeline validation failed''), e) \<and>
   m_registered_pipeline_defs (snd (register_pipeline (Some p) e)) = m_registered_pipeline_defs e \<and>
   do_service_start (snd (register_pipeline (Some p) e)) = do_service_start e"
  by (simp add: register_pipeline_def)

theorem register_pipeline_invalid_keeps_executor_witness:
  "\<not> valid_pipeline egress_only_pipeline \<and>
   register_pipeline (Some egress_only_pipeline) fresh_executor =
     (Inl (MrcRuntimeError ''pipeline validation failed''), fresh_executor) \<and>
   m_registered_pipeline_defs (snd (register_pipeline (Some egress_only_pipeline) fresh_executor)) = []"
proof -
  note n = invalid_egress_only_pipeline
  from register_pipeline_invalid_keeps_executor [OF n, of fresh_executor] n
  show ?thesis by (simp add: fresh_executor_def)
qed

lemma do_handle_event_other_tag:
  "ev_tag ev \<noteq> status \<Longrightarrow> promises (do_handle_event ev c) status = promises c status"
  by (simp add: do_handle_event_def classify_event_def split: EventType.splits option.splits)

lemma do_handle_event_sets:
  "ev_tag ev \<noteq> 0 \<Longrightarrow> promises c (ev_tag ev) = Some p \<Longrightarrow> promise_value p = None \<Longrightarrow>
   promises (do_handle_event ev c) (ev_tag ev) = Some (p\<lparr>promise_value := Some ev\<rparr>)"
  by (simp add: do_handle_event_def)

lemma future_get_set:
  "promises c status = Some p \<Longrightarrow> promise_value p = Some ev \<Longrightarrow>
   future_get UnpackTo status incoming c = Some (reply_of UnpackTo ev, incoming, c)"
  by (cases incoming) simp_all

lemma future_get_first_tagged:
  "status \<noteq> 0 \<Longrightarrow> promises c status = Some p \<Longrightarrow> promise_value p = None \<Longrightarrow>
   map_option fst (future_get UnpackTo status incoming c) =
     map_option (reply_of UnpackTo) (find (\<lambda>ev. ev_tag ev = status) incoming)"
proof (induction incoming arbitrary: c p)
  case Nil
  then show ?case by simp
next
  case (Cons e es)
  show ?case
  proof (cases "ev_tag e = status")
    case True
    with Cons.prems
    have "promises (do_handle_event e c) status = Some (p\<lparr>promise_value := Some e\<rparr>)"
      using do_handle_event_sets [of e c p] by simp
    then have "future_get UnpackTo status es (do_handle_event e c) =
        Some (reply_of UnpackTo e, es, do_handle_event e c)"
      by (rule future_get_set) simp
    with Cons.prems True show ?thesis by simp
  next
    case False
    with Cons.prems have "promises (do_handle_event e c) status = Some p"
      by (simp add: do_handle_event_other_tag)
    from Cons.IH [OF Cons.prems(1) this Cons.prems(3)] Cons.prems False show ?thesis by simp
  qed
qed

lemma await_response_first_tagged:
  "status \<noteq> 0 \<Longrightarrow> promises c status = Some pending \<Longrightarrow>
   map_option fst (await_response UnpackTo status incoming c) =
     map_option (reply_of UnpackTo) (find (\<lambda>ev. ev_tag ev = status) incoming)"
  using future_get_first_tagged
    [of status "c\<lparr>promises := (promises c)(status \<mapsto> pending\<lparr>future_retrieved := True\<rparr>)\<rparr>"
        "pending\<lparr>future_retrieved := True\<rparr>" UnpackTo incoming]
  by (simp add: await_response_def pending_def)

text \<open>
  C3.  A unary request issued on a pending status writes an event whose tag is the
  address of that status's promise.  The tag identifies this promise and no other: an
  incoming event carrying the tag fulfils exactly this promise and leaves every other
  one as it was.  And whatever the stream delivers afterwards, \<^verbatim>\<open>await_response\<close> on that
  status returns the reply made from the first incoming event carrying this tag, events
  with other tags before or after it making no difference; it does not return only if
  no such event arrives.
\<close>

theorem await_response_returns_tagged_response:
  assumes "status \<noteq> 0" and "promises c status = Some pending"
    and "PackFrom request = Some packed" and "m_writer c = Some written"
  shows "\<exists>c'. async_unary PackFrom event_type request status c = Inr c' \<and>
           m_writer c' = Some (written @
             [\<lparr>ev_event = event_type, ev_tag = status, ev_message = packed, ev_error = None\<rparr>]) \<and>
           promises c' = promises c \<and>
           (\<forall>ev. ev_tag ev = status \<longrightarrow>
              promises (do_handle_event ev c') = (promises c')(status \<mapsto> fulfilled ev)) \<and>
           (\<forall>incoming.
              map_option fst (await_response UnpackTo status incoming c') =
                map_option (reply_of UnpackTo) (find (\<lambda>ev. ev_tag ev = status) incoming))"
proof -
  let ?ev = "\<lparr>ev_event = event_type, ev_tag = status, ev_message = packed, ev_error = None\<rparr>"
  let ?c = "c\<lparr>m_writer := Some (written @ [?ev])\<rparr>"
  have a: "async_unary PackFrom event_type request status c = Inr ?c"
    using assms by (simp add: async_unary_def)
  have p: "promises ?c status = Some pending"
    using assms by simp
  have h: "\<forall>ev. ev_tag ev = status \<longrightarrow>
      promises (do_handle_event ev ?c) = (promises ?c)(status \<mapsto> fulfilled ev)"
    using assms by (simp add: do_handle_event_def pending_def fulfilled_def)
  have "\<forall>incoming.
      map_option fst (await_response UnpackTo status incoming ?c) =
        map_option (reply_of UnpackTo) (find (\<lambda>ev. ev_tag ev = status) incoming)"
    using await_response_first_tagged [OF assms(1) p] by blast
  with a h show ?thesis by simp
qed

lemma three_pending_promises:
  "promises three_pending 0x1000 = Some pending"
  "promises three_pending 0x2000 = Some pending"
  "promises three_pending 0x3000 = Some pending"
  "m_writer three_pending = Some []"
  by (simp_all add: three_pending_def new_status_def connected_client_def)

theorem await_response_returns_tagged_response_witness:
  "(0x1000 :: 64 word) \<noteq> 0 \<and> promises three_pending 0x1000 = Some pending \<and>
   m_writer three_pending = Some [] \<and>
   (\<exists>c'. async_unary Some ClientUnaryRequestPipelineAssignment request_payload 0x1000 three_pending = Inr c' \<and>
      map_option fst (await_response (unpack_as ''Response'') 0x1000
        [response_event 0x3000 [3], response_event 0x1000 [1], response_event 0x2000 [2]] c') =
      Some (returns (has_value [1])))"
proof -
  have nz: "(0x1000 :: 64 word) \<noteq> 0" by simp
  have pk: "Some request_payload = Some request_payload" by simp
  from await_response_returns_tagged_response
    [where PackFrom = Some and request = request_payload and packed = request_payload
       and event_type = ClientUnaryRequestPipelineAssignment
       and UnpackTo = "unpack_as ''Response''",
     OF nz three_pending_promises(1) pk three_pending_promises(4)]
  obtain c' where
    a: "async_unary Some ClientUnaryRequestPipelineAssignment request_payload 0x1000 three_pending = Inr c'"
    and r: "\<forall>incoming.
      map_option fst (await_response (unpack_as ''Response'') 0x1000 incoming c') =
        map_option (reply_of (unpack_as ''Response'')) (find (\<lambda>ev. ev_tag ev = 0x1000) incoming)"
    by blast
  have "map_option fst (await_response (unpack_as ''Response'') 0x1000
        [response_event 0x3000 [3], response_event 0x1000 [1], response_event 0x2000 [2]] c') =
      Some (returns (has_value [1]))"
    by (subst r [rule_format]) (simp add: response_event_def reply_of_def unpack_as_def)
  with a nz three_pending_promises show ?thesis by blast
qed

text \<open>
  C4, as the code has it.  \<^verbatim>\<open>async_unary\<close> does not read the client's state: in every
  state, when the request packs and the writer exists, the event is written to the
  stream at once and the state stays what it was.  There is no queue and no
  \<^verbatim>\<open>not_ready\<close> failure.
\<close>

theorem async_unary_writes_in_every_state:
  assumes "PackFrom request = Some packed" and "m_writer c = Some written"
  shows "async_unary PackFrom event_type request status (c\<lparr>m_state := s\<rparr>) =
     Inr (c\<lparr>m_state := s,
            m_writer := Some (written @
              [\<lparr>ev_event = event_type, ev_tag = status, ev_message = packed, ev_error = None\<rparr>])\<rparr>)"
  using assms by (simp add: async_unary_def)

theorem async_unary_writes_in_every_state_witness:
  "m_writer connected_client = Some [] \<and>
   async_unary Some ClientRegisterWorkers request_payload 0x1000
       (connected_client\<lparr>m_state := Disconnected\<rparr>) =
     Inr (connected_client\<lparr>m_state := Disconnected,
            m_writer := Some [\<lparr>ev_event = ClientRegisterWorkers, ev_tag = 0x1000,
                               ev_message = request_payload, ev_error = None\<rparr>]\<rparr>)"
proof -
  have w: "m_writer connected_client = Some []" by (simp add: connected_client_def)
  have pk: "Some request_payload = Some request_payload" by simp
  from async_unary_writes_in_every_state
    [where PackFrom = Some and request = request_payload and packed = request_payload
       and event_type = ClientRegisterWorkers and status = "0x1000" and s = Disconnected,
     OF pk w] w
  show ?thesis by simp
qed

text \<open>
  C4 as stated fails: a client that is connected but not yet operational writes the
  request to the stream.
\<close>

theorem async_unary_not_operational_counterexample:
  "m_state connected_client \<noteq> Operational \<and>
   async_unary Some ClientUnaryRequestPipelineAssignment request_payload 0x1000 connected_client =
     Inr (connected_client\<lparr>m_writer :=
            Some [\<lparr>ev_event = ClientUnaryRequestPipelineAssignment, ev_tag = 0x1000,
                   ev_message = request_payload, ev_error = None\<rparr>]\<rparr>)"
  by (simp add: async_unary_def connected_client_def)

text \<open>
  C9.  \<^verbatim>\<open>await_unary\<close> gives the same result as \<^verbatim>\<open>async_unary\<close> on a fresh status followed
  by that status's \<^verbatim>\<open>await_response\<close>: the same failure, the same reply, or no return,
  for the same incoming events.
\<close>

theorem await_unary_is_async_then_await:
  "map_sum id (map_option fst) (await_unary PackFrom UnpackTo event_type request status incoming c) =
   async_then_await PackFrom UnpackTo event_type request status incoming c"
  by (simp add: await_unary_def async_then_await_def split: sum.splits option.splits prod.splits)

text \<open>
  C10.  \<^verbatim>\<open>SubscriberProxy::on_next\<close> passes the value to the subscriber exactly when the
  subscriber is subscribed; when it is not, the subscriber gets no call and is left as
  it was.
\<close>

theorem proxy_on_next_forwards_iff_subscribed:
  "(fst (SubscriberProxy_on_next is_subscribed on_next self v) = [v]) = is_subscribed self \<and>
   (is_subscribed self \<longrightarrow>
      SubscriberProxy_on_next is_subscribed on_next self v = ([v], on_next v self)) \<and>
   (\<not> is_subscribed self \<longrightarrow>
      SubscriberProxy_on_next is_subscribed on_next self v = ([], self))"
  by (simp add: SubscriberProxy_on_next_def)

theorem proxy_on_next_forwards_iff_subscribed_witness:
  "subscribed \<lparr>subscribed = True, observed = [1 :: int]\<rparr> \<and>
   SubscriberProxy_on_next subscribed observe \<lparr>subscribed = True, observed = [1 :: int]\<rparr> 2 =
     ([2], \<lparr>subscribed = True, observed = [1, 2]\<rparr>) \<and>
   \<not> subscribed \<lparr>subscribed = False, observed = [1 :: int]\<rparr> \<and>
   SubscriberProxy_on_next subscribed observe \<lparr>subscribed = False, observed = [1 :: int]\<rparr> 2 =
     ([], \<lparr>subscribed = False, observed = [1]\<rparr>)"
proof -
  let ?on = "\<lparr>subscribed = True, observed = [1 :: int]\<rparr>"
  let ?off = "\<lparr>subscribed = False, observed = [1 :: int]\<rparr>"
  have s: "subscribed ?on" and n: "\<not> subscribed ?off" by simp_all
  from proxy_on_next_forwards_iff_subscribed [of subscribed observe ?on 2] s
  have a: "SubscriberProxy_on_next subscribed observe ?on 2 = ([2], observe 2 ?on)" by blast
  from proxy_on_next_forwards_iff_subscribed [of subscribed observe ?off 2] n
  have b: "SubscriberProxy_on_next subscribed observe ?off 2 = ([], ?off)" by blast
  from a b show ?thesis by (simp add: observe_def)
qed

lemma map_of_delete_other:
  "m \<noteq> n \<Longrightarrow> map_of (AList.delete n al) m = map_of al m"
  by (simp add: delete_conv')

text \<open>
  C2, as the two tests have it.  Destroying a live node that provides an edge some
  node still holds is fatal.  Destroying a live node that provides no held edge
  succeeds and releases the edges the node itself holds, so that nothing connects it
  afterwards.
\<close>

theorem destroy_node_fatal_iff_provides_held_edge:
  assumes "map_of (live_nodes g) n = Some node"
  shows "(provides_held_edge n g \<longrightarrow> destroy_node n g = Inl use_after_destruction) \<and>
         (\<not> provides_held_edge n g \<longrightarrow>
            (\<exists>g'. destroy_node n g = Inr g' \<and> \<not> connected_to_edge n g' \<and>
                   map_of (live_nodes g') n = None))"
  using assms
  by (auto simp: destroy_node_def connected_to_edge_def holds_edge_def provides_held_edge_def
      list_ex_iff delete_conv')

theorem destroy_node_fatal_iff_provides_held_edge_witness:
  "make_edge 0 1 source_and_sink = Inr (source_and_sink\<lparr>connections := [(0, 1)]\<rparr>) \<and>
   map_of (live_nodes (source_and_sink\<lparr>connections := [(0, 1)]\<rparr>)) 1 = Some int_node \<and>
   provides_held_edge 1 (source_and_sink\<lparr>connections := [(0, 1)]\<rparr>) \<and>
   destroy_node 1 (source_and_sink\<lparr>connections := [(0, 1)]\<rparr>) = Inl use_after_destruction \<and>
   run_ops [MakeEdge 0 1, Reset 1] source_and_sink = [None, Some use_after_destruction]"
proof -
  let ?g = "source_and_sink\<lparr>connections := [(0, 1)]\<rparr>"
  have m: "make_edge 0 1 source_and_sink = Inr ?g"
    by (simp add: make_edge_def source_and_sink_def int_node_def compatible_def holds_edge_def
        provides_held_edge_def)
  have l: "map_of (live_nodes ?g) 1 = Some int_node"
    by (simp add: source_and_sink_def)
  have p: "provides_held_edge 1 ?g"
    by (simp add: provides_held_edge_def)
  from destroy_node_fatal_iff_provides_held_edge [OF l] p
  have d: "destroy_node 1 ?g = Inl use_after_destruction" by blast
  from m d have "run_ops [MakeEdge 0 1, Reset 1] source_and_sink = [None, Some use_after_destruction]"
    by simp
  with m l p d show ?thesis by blast
qed

text \<open>
  C2 as stated fails: in \<^verbatim>\<open>SourceToSinkMultiFail\<close> the source is connected to the edge to
  the first sink when it is reset, and the reset succeeds.
\<close>

theorem destroy_connected_source_counterexample:
  "map_sum id (connected_to_edge 0) (make_edge 0 1 source_and_two_sinks) = Inr True \<and>
   run_ops [MakeEdge 0 1, MakeEdge 0 2, Reset 0] source_and_two_sinks =
     [None, Some already_connected, None]"
  by (simp add: make_edge_def destroy_node_def source_and_two_sinks_def int_node_def
      compatible_def connected_to_edge_def holds_edge_def provides_held_edge_def)

lemma make_edge_first:
  assumes "map_of (live_nodes g) x = Some nx" and "map_of (live_nodes g) y = Some ny"
    and "compatible g (node_value_type nx) (node_value_type ny)"
    and "\<not> connected_to_edge x g" and "\<not> connected_to_edge y g"
  shows "make_edge x y g = Inr (g\<lparr>connections := connections g @ [(x, y)]\<rparr>)"
  using assms by (simp add: make_edge_def connected_to_edge_def)

lemma compatible_connections [simp]:
  "compatible (g\<lparr>connections := cs\<rparr>) a b = compatible g a b"
  by (simp add: compatible_def)

text \<open>
  C5.  Take three live nodes that no edge connects yet, one of them, \<open>x\<close>, not declared
  multi-fan-out.  With \<open>x\<close> as the common producer, the first \<^verbatim>\<open>make_edge\<close> succeeds, the
  second fails with \<^verbatim>\<open>already_connected\<close>, and the three nodes are then destroyed, the
  producer first, without a failure; the same holds with \<open>x\<close> as the common consumer of
  two producers.
\<close>

theorem second_edge_already_connected_then_clean:
  assumes "map_of (live_nodes g) x = Some nx" and "map_of (live_nodes g) y = Some ny"
    and "map_of (live_nodes g) z = Some nz"
    and "x \<noteq> y" and "x \<noteq> z" and "y \<noteq> z"
    and "\<not> connected_to_edge x g" and "\<not> connected_to_edge y g" and "\<not> connected_to_edge z g"
    and "\<not> multi_fan_out nx"
  shows "(compatible g (node_value_type nx) (node_value_type ny) \<and>
          compatible g (node_value_type nx) (node_value_type nz) \<longrightarrow>
            run_ops [MakeEdge x y, MakeEdge x z, Reset x, Reset y, Reset z] g =
              [None, Some already_connected, None, None, None]) \<and>
         (compatible g (node_value_type ny) (node_value_type nx) \<and>
          compatible g (node_value_type nz) (node_value_type nx) \<longrightarrow>
            run_ops [MakeEdge y x, MakeEdge z x, Reset y, Reset z, Reset x] g =
              [None, Some already_connected, None, None, None])"
proof (intro conjI impI)
  assume c: "compatible g (node_value_type nx) (node_value_type ny) \<and>
             compatible g (node_value_type nx) (node_value_type nz)"
  let ?g1 = "g\<lparr>connections := connections g @ [(x, y)]\<rparr>"
  have m1: "make_edge x y g = Inr ?g1"
    using assms c by (simp add: make_edge_first)
  have m2: "make_edge x z ?g1 = Inl already_connected"
    using assms c by (simp add: make_edge_def holds_edge_def)
  let ?g2 = "?g1\<lparr>live_nodes := AList.delete x (live_nodes ?g1),
                 connections := filter (\<lambda>e. fst e \<noteq> x) (connections ?g1)\<rparr>"
  have d1: "destroy_node x ?g1 = Inr ?g2"
    using assms
    by (auto simp: destroy_node_def connected_to_edge_def provides_held_edge_def list_ex_iff)
  let ?g3 = "?g2\<lparr>live_nodes := AList.delete y (live_nodes ?g2),
                 connections := filter (\<lambda>e. fst e \<noteq> y) (connections ?g2)\<rparr>"
  have d2: "destroy_node y ?g2 = Inr ?g3"
    using assms
    by (auto simp: destroy_node_def connected_to_edge_def provides_held_edge_def list_ex_iff
        map_of_delete_other)
  have d3: "\<exists>g4. destroy_node z ?g3 = Inr g4"
    using assms
    by (auto simp: destroy_node_def connected_to_edge_def provides_held_edge_def list_ex_iff
        map_of_delete_other)
  from m1 m2 d1 d2 d3
  show "run_ops [MakeEdge x y, MakeEdge x z, Reset x, Reset y, Reset z] g =
          [None, Some already_connected, None, None, None]"
    by auto
next
  assume c: "compatible g (node_value_type ny) (node_value_type nx) \<and>
             compatible g (node_value_type nz) (node_value_type nx)"
  let ?g1 = "g\<lparr>connections := connections g @ [(y, x)]\<rparr>"
  have m1: "make_edge y x g = Inr ?g1"
    using assms c by (simp add: make_edge_first)
  have m2: "make_edge z x ?g1 = Inl already_connected"
    using assms c
    by (auto simp: make_edge_def holds_edge_def provides_held_edge_def connected_to_edge_def)
  let ?g2 = "?g1\<lparr>live_nodes := AList.delete y (live_nodes ?g1),
                 connections := filter (\<lambda>e. fst e \<noteq> y) (connections ?g1)\<rparr>"
  have d1: "destroy_node y ?g1 = Inr ?g2"
    using assms
    by (auto simp: destroy_node_def connected_to_edge_def provides_held_edge_def list_ex_iff)
  let ?g3 = "?g2\<lparr>live_nodes := AList.delete z (live_nodes ?g2),
                 connections := filter (\<lambda>e. fst e \<noteq> z) (connections ?g2)\<rparr>"
  have d2: "destroy_node z ?g2 = Inr ?g3"
    using assms
    by (auto simp: destroy_node_def connected_to_edge_def provides_held_edge_def list_ex_iff
        map_of_delete_other)
  have d3: "\<exists>g4. destroy_node x ?g3 = Inr g4"
    using assms
    by (auto simp: destroy_node_def connected_to_edge_def provides_held_edge_def list_ex_iff
        map_of_delete_other)
  from m1 m2 d1 d2 d3
  show "run_ops [MakeEdge y x, MakeEdge z x, Reset y, Reset z, Reset x] g =
          [None, Some already_connected, None, None, None]"
    by auto
qed

theorem second_edge_already_connected_then_clean_witness:
  "\<not> multi_fan_out int_node \<and>
   compatible source_and_two_sinks (node_value_type int_node) (node_value_type int_node) \<and>
   run_ops [MakeEdge 0 1, MakeEdge 0 2, Reset 0, Reset 1, Reset 2] source_and_two_sinks =
     [None, Some already_connected, None, None, None] \<and>
   run_ops [MakeEdge 1 0, MakeEdge 2 0, Reset 1, Reset 2, Reset 0] source_and_two_sinks =
     [None, Some already_connected, None, None, None]"
proof -
  have l: "map_of (live_nodes source_and_two_sinks) 0 = Some int_node"
    "map_of (live_nodes source_and_two_sinks) 1 = Some int_node"
    "map_of (live_nodes source_and_two_sinks) 2 = Some int_node"
    by (simp_all add: source_and_two_sinks_def)
  have f: "\<not> connected_to_edge 0 source_and_two_sinks"
    "\<not> connected_to_edge 1 source_and_two_sinks"
    "\<not> connected_to_edge 2 source_and_two_sinks"
    by (simp_all add: source_and_two_sinks_def connected_to_edge_def holds_edge_def
        provides_held_edge_def)
  have s: "\<not> multi_fan_out int_node" by (simp add: int_node_def)
  have c: "compatible source_and_two_sinks (node_value_type int_node) (node_value_type int_node)"
    by (simp add: compatible_def)
  have d: "(0::nat) \<noteq> 1" "(0::nat) \<noteq> 2" "(1::nat) \<noteq> 2" by simp_all
  from second_edge_already_connected_then_clean [OF l d f s] c s show ?thesis by blast
qed

end
